theory Spec2Isabelle
  imports Main "HOL-Library.Word"
begin

section \<open>Phase sequences with timing (ct/core/switching/Switching.h)\<close>

text \<open>
  The header declares \<open>Switched\<close>, \<open>SwitchEvent\<close> and the class template
  \<open>PhaseSequence<Phase, Time>\<close>. The embedding keeps both template parameters as type
  variables: \<open>'p\<close> stands for the phase handle (\<open>std::shared_ptr<Phase>\<close>, which the class
  only stores and hands back) and \<open>'t\<close> for \<open>Time\<close>. Addition and comparison on \<open>'t\<close> are
  those of the type the template is instantiated with: the definitions ask only for \<open>+\<close>
  and a linear order, so they cover a \<open>Time\<close> whose sums wrap around or round. Where a
  property needs a sum \<open>time_schedule_.back() + duration\<close> not to come out smaller than
  \<open>time_schedule_.back()\<close>, it says so as a hypothesis; only the results that obtain a
  sorted \<open>time_schedule\<close> from non-negative durations alone fix a linearly ordered
  additive group, whose sums are exact.
\<close>

subsection \<open>Vectors, indices and unchecked reads\<close>

text \<open>\<open>std::size_t\<close> is taken as an unsigned 64-bit integer; its arithmetic wraps.\<close>

type_synonym size_t = "64 word"

text \<open>\<open>template <class T> using Switched = std::vector<T>\<close>\<close>

type_synonym 'a Switched = "'a list"

text \<open>
  \<open>std::vector::operator[]\<close> and \<open>std::vector::back\<close> perform no bounds check. A read
  inside the vector returns the element; a read outside it has no defined behaviour, which
  the model records as the outcome \<open>Undefined_behaviour\<close>. No function of the header
  throws or returns an error code, so the outcome type has no constructor for an error.
\<close>

datatype 'a outcome = Returns 'a | Undefined_behaviour

definition bind_outcome :: "'a outcome \<Rightarrow> ('a \<Rightarrow> 'b outcome) \<Rightarrow> 'b outcome" where
  "bind_outcome m f = (case m of Undefined_behaviour \<Rightarrow> Undefined_behaviour | Returns a \<Rightarrow> f a)"

definition subscript :: "'a list \<Rightarrow> size_t \<Rightarrow> 'a outcome" where
  "subscript v idx = (if unat idx < length v then Returns (v ! unat idx) else Undefined_behaviour)"

definition back_vec :: "'a list \<Rightarrow> 'a outcome" where
  "back_vec v = (if v = [] then Undefined_behaviour else Returns (last v))"

definition size_vec :: "'a list \<Rightarrow> size_t" where
  "size_vec v = of_nat (length v)"

subsection \<open>\<open>std::lower_bound\<close>\<close>

text \<open>
  \<open>std::lower_bound(first, last, value)\<close> of the C++ standard library, as the usual
  halving loop over the range of length \<open>len\<close> starting at position \<open>first\<close>:
  \<^verbatim>\<open>
  while (len > 0) {
    half = len >> 1;  middle = first + half;
    if (*middle < value) { first = middle + 1; len = len - half - 1; }
    else len = half;
  }
  return first;
  \<close>
\<close>

function lower_bound_loop :: "'t::linorder list \<Rightarrow> 't \<Rightarrow> nat \<Rightarrow> nat \<Rightarrow> nat" where
  "lower_bound_loop v val first len =
     (if 0 < len then
        (let half = len div 2; middle = first + half
         in if v ! middle < val
            then lower_bound_loop v val (middle + 1) (len - half - 1)
            else lower_bound_loop v val first half)
      else first)"
  by pat_completeness auto
termination
  by (relation "measure (\<lambda>(v, val, first, len). len)") auto

declare lower_bound_loop.simps [simp del]

definition lower_bound :: "'t::linorder list \<Rightarrow> 't \<Rightarrow> nat" where
  "lower_bound v val = lower_bound_loop v val 0 (length v)"

subsection \<open>\<open>SwitchEvent\<close> and \<open>PhaseSequence\<close>\<close>

record ('p, 't) SwitchEvent =
  pre_phase :: 'p
  post_phase :: 'p
  switch_time :: 't

record ('p, 't) PhaseSequence =
  phase_schedule :: "'p list"
  time_schedule :: "'t list"

text \<open>
  The constructor: both vectors start empty and \<open>start_time\<close> is pushed onto
  \<open>time_schedule_\<close>.
\<close>

definition new_PhaseSequence :: "'t \<Rightarrow> ('p, 't) PhaseSequence" where
  "new_PhaseSequence start_time = \<lparr>phase_schedule = [], time_schedule = [] @ [start_time]\<rparr>"

text \<open>
  \<open>addPhase\<close>: first \<open>phase_schedule_.push_back(phase)\<close>, then
  \<open>time_schedule_.emplace_back(time_schedule_.back() + duration)\<close>. There is no test on
  \<open>duration\<close>.
\<close>

definition addPhase :: "'p \<Rightarrow> 't::plus \<Rightarrow> ('p, 't) PhaseSequence \<Rightarrow> ('p, 't) PhaseSequence outcome" where
  "addPhase phase duration s =
     bind_outcome (back_vec (time_schedule s)) (\<lambda>b.
       Returns \<lparr>phase_schedule = phase_schedule s @ [phase],
                time_schedule = time_schedule s @ [b + duration]\<rparr>)"

definition getNumPhases :: "('p, 't) PhaseSequence \<Rightarrow> size_t" where
  "getNumPhases s = size_vec (phase_schedule s)"

definition getNumSwitches :: "('p, 't) PhaseSequence \<Rightarrow> size_t" where
  "getNumSwitches s = getNumPhases s - 1"

definition getStartTimeFromIdx :: "('p, 't) PhaseSequence \<Rightarrow> size_t \<Rightarrow> 't outcome" where
  "getStartTimeFromIdx s idx = subscript (time_schedule s) idx"

definition getEndTimeFromIdx :: "('p, 't) PhaseSequence \<Rightarrow> size_t \<Rightarrow> 't outcome" where
  "getEndTimeFromIdx s idx = subscript (time_schedule s) (idx + 1)"

definition getPhasePtrFromIdx :: "('p, 't) PhaseSequence \<Rightarrow> size_t \<Rightarrow> 'p outcome" where
  "getPhasePtrFromIdx s idx = subscript (phase_schedule s) idx"

text \<open>
  \<open>getIdxFromTime\<close>: the distance from \<open>time_schedule_.begin()\<close> to the iterator that
  \<open>std::lower_bound\<close> returns, converted to \<open>std::size_t\<close>.
\<close>

definition getIdxFromTime :: "('p, 't::linorder) PhaseSequence \<Rightarrow> 't \<Rightarrow> size_t" where
  "getIdxFromTime s time = of_nat (lower_bound (time_schedule s) time)"

definition getPhasePtrFromTime :: "('p, 't::linorder) PhaseSequence \<Rightarrow> 't \<Rightarrow> 'p outcome" where
  "getPhasePtrFromTime s time = getPhasePtrFromIdx s (getIdxFromTime s time)"

text \<open>
  Modelled from the spec: \<open>getPhasePtr\<close>, which \<open>getSwitchEventFromIdx\<close> calls, is
  declared nowhere in the header. The specification gives the event as
  \<open>{pre=phase_schedule[i], post=phase_schedule[i+1], switch_time=time_schedule[i+1]}\<close>, so
  \<open>getPhasePtr(idx)\<close> is the unchecked read \<open>phase_schedule[idx]\<close>.
\<close>

definition getPhasePtr :: "('p, 't) PhaseSequence \<Rightarrow> size_t \<Rightarrow> 'p outcome" where
  "getPhasePtr s idx = subscript (phase_schedule s) idx"

definition getSwitchEventFromIdx :: "('p, 't) PhaseSequence \<Rightarrow> size_t \<Rightarrow> ('p, 't) SwitchEvent outcome" where
  "getSwitchEventFromIdx s idx =
     bind_outcome (getPhasePtr s idx) (\<lambda>pre.
     bind_outcome (getPhasePtr s (idx + 1)) (\<lambda>post.
     bind_outcome (getEndTimeFromIdx s idx) (\<lambda>t.
       Returns \<lparr>pre_phase = pre, post_phase = post, switch_time = t\<rparr>)))"

definition getSwitchEventFromTime :: "('p, 't::linorder) PhaseSequence \<Rightarrow> 't \<Rightarrow> ('p, 't) SwitchEvent outcome" where
  "getSwitchEventFromTime s time = getSwitchEventFromIdx s (getIdxFromTime s time)"

subsection \<open>Runs of appends\<close>

text \<open>
  \<open>addPhases pds s\<close> calls \<open>addPhase\<close> on \<open>s\<close> once for every pair (phase, duration) of
  \<open>pds\<close>, in order.
\<close>

fun addPhases :: "('p \<times> 't::plus) list \<Rightarrow> ('p, 't) PhaseSequence \<Rightarrow> ('p, 't) PhaseSequence outcome" where
  "addPhases [] s = Returns s"
| "addPhases (pd # pds) s = bind_outcome (addPhase (fst pd) (snd pd) s) (addPhases pds)"

text \<open>
  \<open>sums_in_order b pds\<close>: in the run of appends \<open>pds\<close> on a sequence whose last boundary
  time is \<open>b\<close>, no sum \<open>time_schedule_.back() + duration\<close> comes out smaller than
  \<open>time_schedule_.back()\<close>. With non-negative durations that is the absence of overflow.
\<close>

fun sums_in_order :: "'t::{plus,ord} \<Rightarrow> ('p \<times> 't) list \<Rightarrow> bool" where
  "sums_in_order b [] = True"
| "sums_in_order b (pd # pds) = (b \<le> b + snd pd \<and> sums_in_order (b + snd pd) pds)"

text \<open>The invariant of the data model: one more boundary time than phases, times non-decreasing.\<close>

definition invariant :: "('p, 't::linorder) PhaseSequence \<Rightarrow> bool" where
  "invariant s \<longleftrightarrow>
     length (time_schedule s) = length (phase_schedule s) + 1 \<and> sorted (time_schedule s)"

subsection \<open>Calls on a sequence\<close>

text \<open>
  The public member functions as calls, each with the value it hands back and the state of
  the object after it. \<open>addPhase\<close> is the only member function that assigns to
  \<open>phase_schedule_\<close> or \<open>time_schedule_\<close>; the others read them, so a query that returns
  leaves the state as it was. \<open>invoke_all\<close> runs a list of calls in order.
\<close>

datatype ('p, 't) call =
    AddPhase 'p 't
  | GetNumPhases
  | GetNumSwitches
  | GetStartTimeFromIdx size_t
  | GetEndTimeFromIdx size_t
  | GetPhasePtrFromIdx size_t
  | GetPhasePtrFromTime 't
  | GetSwitchEventFromIdx size_t
  | GetSwitchEventFromTime 't
  | GetIdxFromTime 't

datatype ('p, 't) answer =
    Void
  | Size size_t
  | Time 't
  | PhasePtr 'p
  | Event "('p, 't) SwitchEvent"

fun is_query :: "('p, 't) call \<Rightarrow> bool" where
  "is_query (AddPhase phase duration) = False"
| "is_query c = True"

fun invoke :: "('p, 't::{plus,linorder}) call \<Rightarrow> ('p, 't) PhaseSequence
    \<Rightarrow> (('p, 't) answer \<times> ('p, 't) PhaseSequence) outcome" where
  "invoke (AddPhase phase duration) s =
     bind_outcome (addPhase phase duration s) (\<lambda>s'. Returns (Void, s'))"
| "invoke GetNumPhases s = Returns (Size (getNumPhases s), s)"
| "invoke GetNumSwitches s = Returns (Size (getNumSwitches s), s)"
| "invoke (GetStartTimeFromIdx idx) s =
     bind_outcome (getStartTimeFromIdx s idx) (\<lambda>t. Returns (Time t, s))"
| "invoke (GetEndTimeFromIdx idx) s =
     bind_outcome (getEndTimeFromIdx s idx) (\<lambda>t. Returns (Time t, s))"
| "invoke (GetPhasePtrFromIdx idx) s =
     bind_outcome (getPhasePtrFromIdx s idx) (\<lambda>p. Returns (PhasePtr p, s))"
| "invoke (GetPhasePtrFromTime time) s =
     bind_outcome (getPhasePtrFromTime s time) (\<lambda>p. Returns (PhasePtr p, s))"
| "invoke (GetSwitchEventFromIdx idx) s =
     bind_outcome (getSwitchEventFromIdx s idx) (\<lambda>e. Returns (Event e, s))"
| "invoke (GetSwitchEventFromTime time) s =
     bind_outcome (getSwitchEventFromTime s time) (\<lambda>e. Returns (Event e, s))"
| "invoke (GetIdxFromTime time) s = Returns (Size (getIdxFromTime s time), s)"

fun invoke_all :: "('p, 't::{plus,linorder}) call list \<Rightarrow> ('p, 't) PhaseSequence
    \<Rightarrow> ('p, 't) PhaseSequence outcome" where
  "invoke_all [] s = Returns s"
| "invoke_all (c # cs) s = bind_outcome (invoke c s) (\<lambda>r. invoke_all cs (snd r))"

subsection \<open>Example sequences\<close>

text \<open>
  The three-phase scenario of the specification with integer times (phases \<open>A\<close>, \<open>B\<close>, \<open>C\<close>
  of durations 2, 3, 1 from start time 0), and a sequence whose middle phase has duration 0,
  the sequence after the first append (with integer times, and with 32-bit unsigned times,
  whose sums wrap around), and the sequence as constructed.
\<close>

abbreviation three_phases :: "(string, int) PhaseSequence" where
  "three_phases \<equiv> \<lparr>phase_schedule = [''A'', ''B'', ''C''], time_schedule = [0, 2, 5, 6]\<rparr>"

abbreviation zero_duration_phases :: "(string, int) PhaseSequence" where
  "zero_duration_phases \<equiv> \<lparr>phase_schedule = [''A'', ''B'', ''C''], time_schedule = [0, 2, 2, 5]\<rparr>"

abbreviation one_phase :: "(string, int) PhaseSequence" where
  "one_phase \<equiv> \<lparr>phase_schedule = [''A''], time_schedule = [0, 2]\<rparr>"

abbreviation small_times :: "(string, 32 word) PhaseSequence" where
  "small_times \<equiv> \<lparr>phase_schedule = [''A''], time_schedule = [0, 2]\<rparr>"

abbreviation empty_sequence :: "(string, int) PhaseSequence" where
  "empty_sequence \<equiv> new_PhaseSequence 0"

section \<open>Properties\<close>

lemma bind_Returns [simp]: "bind_outcome (Returns a) f = f a"
  by (simp add: bind_outcome_def)

lemma bind_Undefined [simp]: "bind_outcome Undefined_behaviour f = Undefined_behaviour"
  by (simp add: bind_outcome_def)

subsection \<open>The binary search\<close>

text \<open>
  The loop stays inside the range it is given. On a sorted vector it returns the partition
  point: every element before it is smaller than \<open>val\<close>, and no element from it on is.
  That position is unique, so on a sorted vector the result does not depend on how the
  library implements the search.
\<close>

lemma lower_bound_loop_done: "lower_bound_loop v val first 0 = first"
  by (subst lower_bound_loop.simps) simp

lemma lower_bound_loop_right:
  assumes "0 < len" and "v ! (first + len div 2) < val"
  shows "lower_bound_loop v val first len =
           lower_bound_loop v val (first + len div 2 + 1) (len - len div 2 - 1)"
  by (subst lower_bound_loop.simps) (simp add: assms Let_def)

lemma lower_bound_loop_left:
  assumes "0 < len" and "\<not> v ! (first + len div 2) < val"
  shows "lower_bound_loop v val first len = lower_bound_loop v val first (len div 2)"
  by (subst lower_bound_loop.simps) (simp add: assms Let_def)

lemma lower_bound_loop_range:
  "first \<le> lower_bound_loop v val first len \<and> lower_bound_loop v val first len \<le> first + len"
proof (induction v val first len rule: lower_bound_loop.induct)
  case (1 v val first len)
  show ?case
  proof (cases "0 < len")
    case False
    then have "len = 0" by simp
    then show ?thesis by (simp add: lower_bound_loop_done)
  next
    case pos: True
    show ?thesis
    proof (cases "v ! (first + len div 2) < val")
      case True
      have "first + len div 2 + 1 + (len - len div 2 - 1) = first + len"
        using pos by linarith
      with "1.IH"(1) [OF pos refl refl True]
      have "first \<le> lower_bound_loop v val (first + len div 2 + 1) (len - len div 2 - 1)
          \<and> lower_bound_loop v val (first + len div 2 + 1) (len - len div 2 - 1) \<le> first + len"
        by linarith
      then show ?thesis by (simp only: lower_bound_loop_right [OF pos True])
    next
      case False
      have "first + len div 2 \<le> first + len" by simp
      with "1.IH"(2) [OF pos refl refl False]
      have "first \<le> lower_bound_loop v val first (len div 2)
          \<and> lower_bound_loop v val first (len div 2) \<le> first + len"
        by linarith
      then show ?thesis by (simp only: lower_bound_loop_left [OF pos False])
    qed
  qed
qed

lemma lower_bound_loop_partition:
  assumes "sorted v" and "first + len \<le> length v"
    and "\<forall>i<first. v ! i < val"
    and "\<forall>i. first + len \<le> i \<and> i < length v \<longrightarrow> val \<le> v ! i"
  shows "(\<forall>i<lower_bound_loop v val first len. v ! i < val)
       \<and> (\<forall>i. lower_bound_loop v val first len \<le> i \<and> i < length v \<longrightarrow> val \<le> v ! i)"
  using assms
proof (induction v val first len rule: lower_bound_loop.induct)
  case (1 v val first len)
  show ?case
  proof (cases "0 < len")
    case False
    then have "len = 0" by simp
    with "1.prems"(3,4) show ?thesis by (simp add: lower_bound_loop_done)
  next
    case pos: True
    let ?half = "len div 2"
    let ?middle = "first + ?half"
    from pos "1.prems"(2) have mid: "?middle < length v" by linarith
    show ?thesis
    proof (cases "v ! ?middle < val")
      case True
      have below: "\<forall>i<?middle + 1. v ! i < val"
      proof (intro allI impI)
        fix i assume "i < ?middle + 1"
        then have "i \<le> ?middle" by simp
        with \<open>sorted v\<close> mid have "v ! i \<le> v ! ?middle" by (simp add: sorted_nth_mono)
        with True show "v ! i < val" by simp
      qed
      from pos have eq: "?middle + 1 + (len - ?half - 1) = first + len" by linarith
      from "1.prems"(2) eq have b: "?middle + 1 + (len - ?half - 1) \<le> length v" by simp
      from "1.prems"(4) eq
      have above: "\<forall>i. ?middle + 1 + (len - ?half - 1) \<le> i \<and> i < length v \<longrightarrow> val \<le> v ! i"
        by simp
      from "1.IH"(1) [OF pos refl refl True \<open>sorted v\<close> b below above]
      show ?thesis by (simp only: lower_bound_loop_right [OF pos True])
    next
      case False
      have above: "\<forall>i. first + ?half \<le> i \<and> i < length v \<longrightarrow> val \<le> v ! i"
      proof (intro allI impI)
        fix i assume "first + ?half \<le> i \<and> i < length v"
        with \<open>sorted v\<close> have "v ! ?middle \<le> v ! i" by (simp add: sorted_nth_mono)
        with False show "val \<le> v ! i" by simp
      qed
      from mid have b: "first + ?half \<le> length v" by simp
      from "1.IH"(2) [OF pos refl refl False \<open>sorted v\<close> b "1.prems"(3) above]
      show ?thesis by (simp only: lower_bound_loop_left [OF pos False])
    qed
  qed
qed

lemma lower_bound_le_length: "lower_bound v val \<le> length v"
  using lower_bound_loop_range [of 0 v val "length v"] by (simp add: lower_bound_def)

lemma lower_bound_partition:
  assumes "sorted v"
  shows "(\<forall>i<lower_bound v val. v ! i < val)
       \<and> (\<forall>i. lower_bound v val \<le> i \<and> i < length v \<longrightarrow> val \<le> v ! i)"
proof -
  have "0 + length v \<le> length v" by simp
  moreover have "\<forall>i<0. v ! i < val" by simp
  moreover have "\<forall>i. 0 + length v \<le> i \<and> i < length v \<longrightarrow> val \<le> v ! i" by auto
  ultimately show ?thesis
    unfolding lower_bound_def using assms by (rule lower_bound_loop_partition [rotated])
qed

lemma lower_bound_below: "sorted v \<Longrightarrow> i < lower_bound v val \<Longrightarrow> v ! i < val"
  using lower_bound_partition [of v val] by blast

lemma lower_bound_above: "sorted v \<Longrightarrow> lower_bound v val \<le> i \<Longrightarrow> i < length v \<Longrightarrow> val \<le> v ! i"
  using lower_bound_partition [of v val] by blast

lemma lower_bound_unique:
  assumes "sorted v" and "r \<le> length v" and "\<forall>i<r. v ! i < val"
    and "\<forall>i. r \<le> i \<and> i < length v \<longrightarrow> val \<le> v ! i"
  shows "lower_bound v val = r"
proof (rule antisym)
  show "lower_bound v val \<le> r"
  proof (rule ccontr)
    assume "\<not> lower_bound v val \<le> r"
    then have lt: "r < lower_bound v val" by simp
    with assms(1) have "v ! r < val" by (simp add: lower_bound_below)
    moreover from lt lower_bound_le_length [of v val] have "r < length v" by simp
    with assms(4) have "val \<le> v ! r" by simp
    ultimately show False by simp
  qed
next
  show "r \<le> lower_bound v val"
  proof (rule ccontr)
    assume "\<not> r \<le> lower_bound v val"
    then have lt: "lower_bound v val < r" by simp
    with assms(3) have "v ! lower_bound v val < val" by simp
    moreover from lt assms(2) have "lower_bound v val < length v" by simp
    with assms(1) have "val \<le> v ! lower_bound v val" by (simp add: lower_bound_above)
    ultimately show False by simp
  qed
qed

lemma lower_bound_mono:
  assumes "sorted v" and "t1 \<le> t2"
  shows "lower_bound v t1 \<le> lower_bound v t2"
proof (rule ccontr)
  assume "\<not> lower_bound v t1 \<le> lower_bound v t2"
  then have lt: "lower_bound v t2 < lower_bound v t1" by simp
  with assms(1) have "v ! lower_bound v t2 < t1" by (simp add: lower_bound_below)
  moreover from lt lower_bound_le_length [of v t1] have "lower_bound v t2 < length v" by simp
  with assms(1) have "t2 \<le> v ! lower_bound v t2" by (simp add: lower_bound_above)
  ultimately show False using assms(2) by simp
qed

subsection \<open>Construction and append\<close>

lemma invariant_new: "invariant (new_PhaseSequence t0)"
  by (simp add: invariant_def new_PhaseSequence_def)

lemma addPhase_Returns:
  assumes "time_schedule s \<noteq> []"
  shows "addPhase p d s =
           Returns \<lparr>phase_schedule = phase_schedule s @ [p],
                    time_schedule = time_schedule s @ [last (time_schedule s) + d]\<rparr>"
  using assms by (simp add: addPhase_def back_vec_def)

lemma invariant_nonempty: "invariant s \<Longrightarrow> time_schedule s \<noteq> []"
  by (auto simp: invariant_def)

lemma invariant_length:
  "invariant s \<Longrightarrow> length (time_schedule s) = length (phase_schedule s) + 1"
  by (simp add: invariant_def)

lemma addPhase_length:
  assumes "length (time_schedule s) = length (phase_schedule s) + 1"
  shows "\<exists>s'. addPhase p d s = Returns s'
          \<and> length (time_schedule s') = length (phase_schedule s') + 1"
proof -
  from assms have "time_schedule s \<noteq> []" by auto
  then have "addPhase p d s =
           Returns \<lparr>phase_schedule = phase_schedule s @ [p],
                    time_schedule = time_schedule s @ [last (time_schedule s) + d]\<rparr>"
    by (rule addPhase_Returns)
  with assms show ?thesis by simp
qed

lemma addPhases_length:
  assumes "length (time_schedule s) = length (phase_schedule s) + 1"
  shows "\<exists>s'. addPhases pds s = Returns s'
          \<and> length (time_schedule s') = length (phase_schedule s') + 1"
  using assms
proof (induction pds arbitrary: s)
  case Nil
  then show ?case by simp
next
  case (Cons pd pds)
  from addPhase_length [OF Cons.prems, of "fst pd" "snd pd"]
  obtain s1 where s1: "addPhase (fst pd) (snd pd) s = Returns s1"
    and len1: "length (time_schedule s1) = length (phase_schedule s1) + 1"
    by (elim exE conjE)
  from Cons.IH [OF len1]
  obtain s' where s': "addPhases pds s1 = Returns s'"
    and len': "length (time_schedule s') = length (phase_schedule s') + 1"
    by (elim exE conjE)
  have "addPhases (pd # pds) s = Returns s'"
    by (simp add: s1 s')
  with len' show ?case by (intro exI conjI)
qed

text \<open>
  One append keeps the invariant as soon as the sum it stores is not smaller than the last
  boundary time; nothing else is asked of the arithmetic.
\<close>

lemma invariant_addPhase_in_order:
  fixes s :: "('p, 't::{plus,linorder}) PhaseSequence"
  assumes "invariant s" and "last (time_schedule s) \<le> last (time_schedule s) + d"
  shows "\<exists>s'. addPhase p d s = Returns s' \<and> invariant s'
          \<and> last (time_schedule s') = last (time_schedule s) + d"
proof -
  let ?ts = "time_schedule s"
  from assms(1) have ne: "?ts \<noteq> []" by (rule invariant_nonempty)
  from assms(1) have sorted: "sorted ?ts" by (simp add: invariant_def)
  have "\<forall>x\<in>set ?ts. x \<le> last ?ts + d"
  proof
    fix x assume "x \<in> set ?ts"
    then obtain i where i: "i < length ?ts" "x = ?ts ! i"
      by (auto simp: in_set_conv_nth)
    with sorted ne have "x \<le> last ?ts"
      by (simp add: last_conv_nth sorted_nth_mono)
    then show "x \<le> last ?ts + d" using assms(2) by (rule order_trans)
  qed
  with assms(1) have "invariant \<lparr>phase_schedule = phase_schedule s @ [p],
      time_schedule = ?ts @ [last ?ts + d]\<rparr>"
    by (simp add: invariant_def sorted_append)
  with ne show ?thesis by (simp add: addPhase_Returns)
qed

lemma invariant_addPhases_in_order:
  fixes s :: "('p, 't::{plus,linorder}) PhaseSequence"
  assumes "invariant s" and "sums_in_order (last (time_schedule s)) pds"
  shows "\<exists>s'. addPhases pds s = Returns s' \<and> invariant s'"
  using assms
proof (induction pds arbitrary: s)
  case Nil
  then show ?case by simp
next
  case (Cons pd pds)
  let ?b = "last (time_schedule s)"
  from Cons.prems(2) have step: "?b \<le> ?b + snd pd"
    and rest: "sums_in_order (?b + snd pd) pds" by simp_all
  from invariant_addPhase_in_order [OF Cons.prems(1) step, of "fst pd"]
  obtain s1 where s1: "addPhase (fst pd) (snd pd) s = Returns s1" and inv1: "invariant s1"
    and last1: "last (time_schedule s1) = ?b + snd pd"
    by (elim exE conjE)
  from rest last1 have "sums_in_order (last (time_schedule s1)) pds" by simp
  from Cons.IH [OF inv1 this]
  obtain s' where s': "addPhases pds s1 = Returns s'" and inv': "invariant s'"
    by (elim exE conjE)
  have "addPhases (pd # pds) s = Returns s'"
    by (simp add: s1 s')
  with inv' show ?case by (intro exI conjI)
qed

lemma sums_in_order_take: "sums_in_order b pds \<Longrightarrow> sums_in_order b (take n pds)"
proof (induction pds arbitrary: b n)
  case Nil
  then show ?case by simp
next
  case (Cons pd pds)
  show ?case
  proof (cases n)
    case 0
    then show ?thesis by simp
  next
    case (Suc m)
    with Cons.prems Cons.IH [of "b + snd pd" m] show ?thesis by simp
  qed
qed

text \<open>In exact arithmetic non-negative durations are enough.\<close>

lemma sums_in_order_nonneg:
  fixes pds :: "('p \<times> 't::linordered_ab_group_add) list"
  assumes "\<forall>pd\<in>set pds. 0 \<le> snd pd"
  shows "sums_in_order b pds"
  using assms by (induction pds arbitrary: b) simp_all

lemma invariant_addPhases:
  fixes pds :: "('p \<times> 't::linordered_ab_group_add) list"
  assumes "invariant s" and "\<forall>pd\<in>set pds. 0 \<le> snd pd"
  shows "\<exists>s'. addPhases pds s = Returns s' \<and> invariant s'"
proof -
  from assms(2) have "sums_in_order (last (time_schedule s)) pds"
    by (rule sums_in_order_nonneg)
  with assms(1) show ?thesis by (rule invariant_addPhases_in_order)
qed

text \<open>
  C3. The claim asks for both halves of the invariant after appends with non-negative
  durations, for every sequence. With \<open>Time\<close> a 32-bit unsigned integer, start time
  \<open>4294967295\<close> and duration 1, the sum wraps: \<open>addPhase\<close> stores the boundary times
  \<open>4294967295, 0\<close>, which are not non-decreasing. (With \<open>Time = int\<close> the sum at the
  largest \<open>int\<close> overflows in the same way.)
\<close>

theorem addPhase_wrapping_sum_breaks_order:
  "(0 :: 32 word) \<le> 1
   \<and> invariant (new_PhaseSequence 4294967295 :: (string, 32 word) PhaseSequence)
   \<and> addPhase ''A'' 1 (new_PhaseSequence (4294967295 :: 32 word))
       = Returns \<lparr>phase_schedule = [''A''], time_schedule = [4294967295, 0]\<rparr>
   \<and> \<not> sorted [4294967295, 0 :: 32 word]
   \<and> \<not> invariant \<lparr>phase_schedule = [''A''], time_schedule = [4294967295, 0 :: 32 word]\<rparr>"
  by (simp add: invariant_def new_PhaseSequence_def addPhase_def back_vec_def)

text \<open>
  C3, as the code has it. The constructor establishes the invariant. After every run of
  appends, whatever the durations, there is one more boundary time than phases. An
  \<open>addPhase\<close> with a non-negative duration whose sum does not come out smaller than the
  last boundary time returns and preserves the invariant, and after every initial part of
  a run of such appends (every observation point) the boundary times are non-decreasing.
\<close>

theorem PhaseSequence_invariant:
  fixes pds qds :: "('p \<times> 't::{plus,zero,linorder}) list" and s :: "('p, 't) PhaseSequence"
  assumes "invariant s" and "0 \<le> d"
    and "last (time_schedule s) \<le> last (time_schedule s) + d"
    and "\<forall>pd\<in>set pds. 0 \<le> snd pd" and "sums_in_order t0 pds" and "n \<le> length pds"
  shows "invariant (new_PhaseSequence t0 :: ('p, 't) PhaseSequence)
       \<and> (\<exists>s'. addPhases qds (new_PhaseSequence t0) = Returns s'
             \<and> length (time_schedule s') = length (phase_schedule s') + 1)
       \<and> (\<exists>s'. addPhase p d s = Returns s' \<and> invariant s')
       \<and> (\<exists>s'. addPhases (take n pds) (new_PhaseSequence t0) = Returns s'
             \<and> length (time_schedule s') = length (phase_schedule s') + 1
             \<and> sorted (time_schedule s'))"
proof (intro conjI)
  show "invariant (new_PhaseSequence t0 :: ('p, 't) PhaseSequence)"
    by (rule invariant_new)
next
  have "length (time_schedule (new_PhaseSequence t0 :: ('p, 't) PhaseSequence))
      = length (phase_schedule (new_PhaseSequence t0 :: ('p, 't) PhaseSequence)) + 1"
    by (simp add: new_PhaseSequence_def)
  then show "\<exists>s'. addPhases qds (new_PhaseSequence t0) = Returns s'
             \<and> length (time_schedule s') = length (phase_schedule s') + 1"
    by (rule addPhases_length)
next
  from invariant_addPhase_in_order [OF assms(1,3), of p]
  obtain s' where "addPhase p d s = Returns s'" and "invariant s'"
    by (elim exE conjE)
  then show "\<exists>s'. addPhase p d s = Returns s' \<and> invariant s'"
    by (intro exI conjI)
next
  let ?new = "new_PhaseSequence t0 :: ('p, 't) PhaseSequence"
  have "last (time_schedule ?new) = t0" by (simp add: new_PhaseSequence_def)
  moreover from assms(5) have "sums_in_order t0 (take n pds)" by (rule sums_in_order_take)
  ultimately have "sums_in_order (last (time_schedule ?new)) (take n pds)" by simp
  with invariant_new have "\<exists>s'. addPhases (take n pds) ?new = Returns s' \<and> invariant s'"
    by (rule invariant_addPhases_in_order)
  then show "\<exists>s'. addPhases (take n pds) (new_PhaseSequence t0) = Returns s'
          \<and> length (time_schedule s') = length (phase_schedule s') + 1
          \<and> sorted (time_schedule s')"
    by (simp add: invariant_def)
qed

theorem PhaseSequence_invariant_witness:
  "invariant small_times
   \<and> (0 :: 32 word) \<le> 3
   \<and> last (time_schedule small_times) \<le> last (time_schedule small_times) + 3
   \<and> list_all (\<lambda>pd. 0 \<le> snd pd) [(''A'', 2 :: 32 word), (''B'', 0), (''C'', 1)]
   \<and> sums_in_order (0 :: 32 word) [(''A'', 2), (''B'', 0), (''C'', 1)]
   \<and> (2 :: nat) \<le> length [(''A'', 2 :: 32 word), (''B'', 0), (''C'', 1)]
   \<and> invariant (new_PhaseSequence 0 :: (string, 32 word) PhaseSequence)
   \<and> (\<exists>s'. addPhases [(''A'', 4294967295 :: 32 word), (''B'', 7)] (new_PhaseSequence 0) = Returns s'
          \<and> length (time_schedule s') = length (phase_schedule s') + 1)
   \<and> (\<exists>s'. addPhase ''B'' 3 small_times = Returns s' \<and> invariant s')
   \<and> (\<exists>s'. addPhases (take 2 [(''A'', 2 :: 32 word), (''B'', 0), (''C'', 1)]) (new_PhaseSequence 0)
            = Returns s'
          \<and> length (time_schedule s') = length (phase_schedule s') + 1
          \<and> sorted (time_schedule s'))"
proof -
  have h1: "invariant small_times" by (simp add: invariant_def)
  have h2: "(0 :: 32 word) \<le> 3" by simp
  have h3: "last (time_schedule small_times) \<le> last (time_schedule small_times) + 3" by simp
  have h4: "\<forall>pd\<in>set [(''A'', 2 :: 32 word), (''B'', 0), (''C'', 1)]. 0 \<le> snd pd" by simp
  have h4': "list_all (\<lambda>pd. 0 \<le> snd pd) [(''A'', 2 :: 32 word), (''B'', 0), (''C'', 1)]" by simp
  have h5: "sums_in_order (0 :: 32 word) [(''A'', 2), (''B'', 0), (''C'', 1)]" by simp
  have h6: "(2 :: nat) \<le> length [(''A'', 2 :: 32 word), (''B'', 0), (''C'', 1)]" by simp
  from PhaseSequence_invariant [OF h1 h2 h3 h4 h5 h6,
      where p = "''B''" and qds = "[(''A'', 4294967295), (''B'', 7)]"] h1 h2 h3 h4' h5 h6
  show ?thesis by (intro conjI) (elim conjE, assumption)+
qed

subsection \<open>Sizes and indices as \<open>std::size_t\<close>\<close>

text \<open>
  A vector never holds \<open>2 ^ 64\<close> or more elements, so its size and every position in it
  are represented exactly; the theorems below carry that bound as a hypothesis.
\<close>

lemma unat_size_t: "n < 2 ^ 64 \<Longrightarrow> unat (of_nat n :: size_t) = n"
  by (simp add: unat_of_nat)

lemma unat_getNumPhases:
  "length (phase_schedule s) < 2 ^ 64 \<Longrightarrow> unat (getNumPhases s) = length (phase_schedule s)"
  by (simp add: getNumPhases_def size_vec_def unat_size_t)

lemma unat_getIdxFromTime:
  assumes "length (time_schedule s) < 2 ^ 64"
  shows "unat (getIdxFromTime s t) = lower_bound (time_schedule s) t"
proof -
  have "lower_bound (time_schedule s) t \<le> length (time_schedule s)"
    by (rule lower_bound_le_length)
  with assms have "lower_bound (time_schedule s) t < 2 ^ 64" by simp
  then show ?thesis by (simp add: getIdxFromTime_def unat_size_t)
qed

lemma addPhases_invariant:
  fixes pds :: "('p \<times> 't::linordered_ab_group_add) list"
  assumes "\<forall>pd\<in>set pds. 0 \<le> snd pd" and "addPhases pds (new_PhaseSequence t0) = Returns s"
  shows "invariant s"
proof -
  from invariant_addPhases [OF invariant_new assms(1), of t0]
  obtain s' where "addPhases pds (new_PhaseSequence t0) = Returns s'" and "invariant s'"
    by (elim exE conjE)
  with assms(2) show ?thesis by simp
qed

lemma three_phases_built:
  "addPhases [(''A'', 2), (''B'', 3), (''C'', 1)] empty_sequence = Returns three_phases"
  by (simp add: addPhase_def back_vec_def new_PhaseSequence_def)

lemma zero_duration_phases_built:
  "addPhases [(''A'', 2), (''B'', 0), (''C'', 3)] empty_sequence = Returns zero_duration_phases"
  by (simp add: addPhase_def back_vec_def new_PhaseSequence_def)

subsection \<open>Time to index\<close>

text \<open>
  C10. On a sequence built by appends with non-negative durations, \<open>getIdxFromTime\<close> is
  monotone in the time, and its result is at most \<open>getNumPhases() + 1\<close>, the length of
  \<open>time_schedule\<close>.
\<close>

theorem getIdxFromTime_monotone_bounded:
  fixes pds :: "('p \<times> 't::linordered_ab_group_add) list"
  assumes "\<forall>pd\<in>set pds. 0 \<le> snd pd"
    and "addPhases pds (new_PhaseSequence t0) = Returns s"
    and "length (time_schedule s) < 2 ^ 64"
    and "t1 \<le> t2"
  shows "getIdxFromTime s t1 \<le> getIdxFromTime s t2
       \<and> unat (getIdxFromTime s t) \<le> unat (getNumPhases s) + 1
       \<and> unat (getIdxFromTime s t) \<le> length (time_schedule s)"
proof -
  from assms(1,2) have inv: "invariant s" by (rule addPhases_invariant)
  then have sorted: "sorted (time_schedule s)"
    and len: "length (time_schedule s) = length (phase_schedule s) + 1"
    by (simp_all add: invariant_def)
  from len assms(3) have "length (phase_schedule s) < 2 ^ 64" by simp
  then have np: "unat (getNumPhases s) = length (phase_schedule s)"
    by (rule unat_getNumPhases)
  have b: "unat (getIdxFromTime s t) \<le> length (time_schedule s)"
    by (simp add: unat_getIdxFromTime [OF assms(3)] lower_bound_le_length)
  have "lower_bound (time_schedule s) t1 \<le> lower_bound (time_schedule s) t2"
    using sorted assms(4) by (rule lower_bound_mono)
  then have m: "getIdxFromTime s t1 \<le> getIdxFromTime s t2"
    by (simp add: word_le_nat_alt unat_getIdxFromTime [OF assms(3)])
  from b len np have "unat (getIdxFromTime s t) \<le> unat (getNumPhases s) + 1" by simp
  with m b show ?thesis by (intro conjI)
qed

theorem getIdxFromTime_monotone_bounded_witness:
  "list_all (\<lambda>pd. 0 \<le> snd pd) [(''A'', 2 :: int), (''B'', 3), (''C'', 1)]
   \<and> addPhases [(''A'', 2), (''B'', 3), (''C'', 1)] empty_sequence = Returns three_phases
   \<and> length (time_schedule three_phases) < 2 ^ 64
   \<and> (1 :: int) \<le> 4
   \<and> getIdxFromTime three_phases 1 \<le> getIdxFromTime three_phases 4
   \<and> unat (getIdxFromTime three_phases 7) \<le> unat (getNumPhases three_phases) + 1
   \<and> unat (getIdxFromTime three_phases 7) \<le> length (time_schedule three_phases)"
proof -
  have h1: "\<forall>pd\<in>set [(''A'', 2 :: int), (''B'', 3), (''C'', 1)]. 0 \<le> snd pd" by simp
  have h1': "list_all (\<lambda>pd. 0 \<le> snd pd) [(''A'', 2 :: int), (''B'', 3), (''C'', 1)]" by simp
  note h2 = three_phases_built
  have h3: "length (time_schedule three_phases) < 2 ^ 64" by simp
  have h4: "(1 :: int) \<le> 4" by simp
  from getIdxFromTime_monotone_bounded [OF h1 h2 h3 h4, of 7] h1' h2 h3 h4
  show ?thesis by (intro conjI) (elim conjE, assumption)+
qed

text \<open>
  What the search returns on a sequence that satisfies the invariant: for a time after the
  start of phase \<open>i\<close> and up to its end, the index \<open>i + 1\<close>; for a boundary time that is
  larger than every earlier boundary, the position of that boundary.
\<close>

lemma getIdxFromTime_after_start:
  fixes s :: "('p, 't::linorder) PhaseSequence"
  assumes "invariant s" and "length (time_schedule s) < 2 ^ 64"
    and "i < length (phase_schedule s)"
    and "time_schedule s ! i < t" and "t \<le> time_schedule s ! (i + 1)"
  shows "unat (getIdxFromTime s t) = i + 1"
proof -
  let ?ts = "time_schedule s"
  from assms(1) have sorted: "sorted ?ts" and len: "length ?ts = length (phase_schedule s) + 1"
    by (simp_all add: invariant_def)
  from assms(3) len have i1: "i + 1 < length ?ts" by simp
  have below: "\<forall>j<i + 1. ?ts ! j < t"
  proof (intro allI impI)
    fix j assume "j < i + 1"
    then have "j \<le> i" by simp
    with sorted i1 have "?ts ! j \<le> ?ts ! i" by (simp add: sorted_nth_mono)
    with assms(4) show "?ts ! j < t" by simp
  qed
  have above: "\<forall>j. i + 1 \<le> j \<and> j < length ?ts \<longrightarrow> t \<le> ?ts ! j"
  proof (intro allI impI)
    fix j assume "i + 1 \<le> j \<and> j < length ?ts"
    with sorted have "?ts ! (i + 1) \<le> ?ts ! j" by (simp add: sorted_nth_mono)
    with assms(5) show "t \<le> ?ts ! j" by simp
  qed
  from i1 have "i + 1 \<le> length ?ts" by simp
  with sorted have "lower_bound ?ts t = i + 1"
    using below above by (rule lower_bound_unique)
  then show ?thesis by (simp add: unat_getIdxFromTime [OF assms(2)])
qed

lemma getIdxFromTime_at_boundary:
  fixes s :: "('p, 't::linorder) PhaseSequence"
  assumes "invariant s" and "length (time_schedule s) < 2 ^ 64"
    and "j < length (time_schedule s)"
    and "\<forall>k<j. time_schedule s ! k < time_schedule s ! j"
  shows "unat (getIdxFromTime s (time_schedule s ! j)) = j"
proof -
  let ?ts = "time_schedule s"
  from assms(1) have sorted: "sorted ?ts" by (simp add: invariant_def)
  have above: "\<forall>k. j \<le> k \<and> k < length ?ts \<longrightarrow> ?ts ! j \<le> ?ts ! k"
    using sorted by (simp add: sorted_nth_mono)
  from assms(3) have "j \<le> length ?ts" by simp
  with sorted have "lower_bound ?ts (?ts ! j) = j"
    using assms(4) above by (rule lower_bound_unique)
  then show ?thesis by (simp add: unat_getIdxFromTime [OF assms(2)])
qed

text \<open>
  C1. The claim asks for \<open>getIdxFromTime(t) = i\<close> whenever \<open>t\<close> lies in
  \<open>[getStartTimeFromIdx(i), getEndTimeFromIdx(i))\<close>. Evaluated on the three-phase sequence
  with boundaries 0, 2, 5, 6: time 1 lies in phase 0 and the function returns 1; time 4
  lies in phase 1 and the function returns 2.
\<close>

theorem getIdxFromTime_inside_phase_gives_next:
  "addPhases [(''A'', 2), (''B'', 3), (''C'', 1)] empty_sequence = Returns three_phases
   \<and> getStartTimeFromIdx three_phases 0 = Returns 0
   \<and> getEndTimeFromIdx three_phases 0 = Returns 2
   \<and> getIdxFromTime three_phases 1 = 1
   \<and> getStartTimeFromIdx three_phases 1 = Returns 2
   \<and> getEndTimeFromIdx three_phases 1 = Returns 5
   \<and> getIdxFromTime three_phases 4 = 2"
proof (intro conjI)
  show "addPhases [(''A'', 2), (''B'', 3), (''C'', 1)] empty_sequence = Returns three_phases"
    by (rule three_phases_built)
qed (simp_all add: getStartTimeFromIdx_def getEndTimeFromIdx_def subscript_def
      getIdxFromTime_def lower_bound_def lower_bound_loop.simps)

text \<open>
  C2. The claim asks that a time equal to an interior boundary resolves to the phase that
  starts there, the later one when two phases share the boundary time. Evaluated on the
  sequence with boundaries 0, 2, 2, 5: phase 1 is \<open>[2, 2)\<close> and phase 2 is \<open>[2, 5)\<close>, and
  at time 2 the function returns 1, the phase that ends at the shared boundary. With
  boundaries 0, 2, 2, 2 (two zero-duration phases in a row) it returns 1 as well.
\<close>

theorem getIdxFromTime_shared_boundary_gives_earlier:
  "addPhases [(''A'', 2), (''B'', 0), (''C'', 3)] empty_sequence = Returns zero_duration_phases
   \<and> getStartTimeFromIdx zero_duration_phases 1 = Returns 2
   \<and> getEndTimeFromIdx zero_duration_phases 1 = Returns 2
   \<and> getStartTimeFromIdx zero_duration_phases 2 = Returns 2
   \<and> getEndTimeFromIdx zero_duration_phases 2 = Returns 5
   \<and> getIdxFromTime zero_duration_phases 2 = 1
   \<and> getPhasePtrFromTime zero_duration_phases 2 = Returns ''B''
   \<and> getIdxFromTime
         \<lparr>phase_schedule = [''A'', ''B'', ''C''], time_schedule = [0, 2, 2, 2 :: int]\<rparr> 2 = 1"
proof (intro conjI)
  show "addPhases [(''A'', 2), (''B'', 0), (''C'', 3)] empty_sequence = Returns zero_duration_phases"
    by (rule zero_duration_phases_built)
qed (simp_all add: getStartTimeFromIdx_def getEndTimeFromIdx_def
      getPhasePtrFromTime_def getPhasePtrFromIdx_def subscript_def
      getIdxFromTime_def lower_bound_def lower_bound_loop.simps)

subsection \<open>Number of switches\<close>

text \<open>
  C6. The claim asks for \<open>getNumSwitches() = max(0, getNumPhases() - 1)\<close>, so 0 on an
  empty sequence. Evaluated on a freshly constructed sequence: there are 0 phases and
  \<open>getNumPhases() - 1\<close> wraps to \<open>2 ^ 64 - 1\<close>.
\<close>

theorem getNumSwitches_empty_wraps:
  "getNumPhases empty_sequence = 0
   \<and> getNumSwitches empty_sequence = 18446744073709551615
   \<and> getNumSwitches empty_sequence \<noteq> 0"
  by (simp add: getNumSwitches_def getNumPhases_def size_vec_def new_PhaseSequence_def)

lemma unat_getNumSwitches:
  assumes "phase_schedule s \<noteq> []" and "length (phase_schedule s) < 2 ^ 64"
  shows "unat (getNumSwitches s) = length (phase_schedule s) - 1"
proof -
  from assms(1) have "length (phase_schedule s) = Suc (length (phase_schedule s) - 1)" by simp
  then have "getNumPhases s = of_nat (length (phase_schedule s) - 1) + 1"
    unfolding getNumPhases_def size_vec_def by (metis of_nat_Suc add.commute)
  then have "getNumSwitches s = of_nat (length (phase_schedule s) - 1)"
    by (simp add: getNumSwitches_def)
  with assms(2) show ?thesis by (simp add: unat_size_t)
qed

subsection \<open>Switch events\<close>

text \<open>
  On a sequence with at least one phase, an index below \<open>getNumSwitches()\<close> yields the event
  made of the two neighbouring phase handles and the boundary time between them.
\<close>

lemma getSwitchEventFromIdx_derivation:
  assumes "invariant s" and "length (time_schedule s) < 2 ^ 64"
    and "phase_schedule s \<noteq> []" and "idx < getNumSwitches s"
  shows "getPhasePtrFromIdx s idx = Returns (phase_schedule s ! unat idx)
       \<and> getPhasePtrFromIdx s (idx + 1) = Returns (phase_schedule s ! (unat idx + 1))
       \<and> getEndTimeFromIdx s idx = Returns (time_schedule s ! (unat idx + 1))
       \<and> getStartTimeFromIdx s (idx + 1) = Returns (time_schedule s ! (unat idx + 1))
       \<and> getSwitchEventFromIdx s idx =
            Returns \<lparr>pre_phase = phase_schedule s ! unat idx,
                     post_phase = phase_schedule s ! (unat idx + 1),
                     switch_time = time_schedule s ! (unat idx + 1)\<rparr>"
proof -
  from assms(1) have len: "length (time_schedule s) = length (phase_schedule s) + 1"
    by (simp add: invariant_def)
  with assms(2) have small: "length (phase_schedule s) < 2 ^ 64" by simp
  from assms(4) have "unat idx < unat (getNumSwitches s)" by (simp add: word_less_nat_alt)
  with unat_getNumSwitches [OF assms(3) small]
  have lt: "unat idx + 1 < length (phase_schedule s)" by simp
  with small have "unat idx + 1 < 2 ^ 64" by simp
  then have suc: "unat (idx + 1) = unat idx + 1"
    by (simp add: unat_word_ariths)
  from lt have a: "subscript (phase_schedule s) idx = Returns (phase_schedule s ! unat idx)"
    by (simp add: subscript_def)
  from lt suc have b: "subscript (phase_schedule s) (idx + 1) = Returns (phase_schedule s ! (unat idx + 1))"
    by (simp add: subscript_def)
  from lt suc len have c: "subscript (time_schedule s) (idx + 1) = Returns (time_schedule s ! (unat idx + 1))"
    by (simp add: subscript_def)
  show ?thesis
    by (simp add: getPhasePtrFromIdx_def getEndTimeFromIdx_def getStartTimeFromIdx_def
        getSwitchEventFromIdx_def getPhasePtr_def a b c)
qed

text \<open>
  C5. The claim covers every index \<open>i < getNumSwitches()\<close>. Evaluated on a freshly
  constructed sequence: \<open>getNumSwitches()\<close> has wrapped, so index 0 is below it, and
  \<open>getSwitchEventFromIdx(0)\<close> reads \<open>phase_schedule[0]\<close> outside the empty vector.
\<close>

theorem getSwitchEventFromIdx_empty_sequence:
  "getNumPhases empty_sequence = 0
   \<and> (0 :: size_t) < getNumSwitches empty_sequence
   \<and> getSwitchEventFromIdx empty_sequence 0 = Undefined_behaviour
   \<and> getPhasePtrFromIdx empty_sequence 0 = Undefined_behaviour"
  by (simp add: word_greater_zero_iff getNumSwitches_def getNumPhases_def size_vec_def
      new_PhaseSequence_def getSwitchEventFromIdx_def getPhasePtr_def getPhasePtrFromIdx_def subscript_def)

subsection \<open>Appending a phase\<close>

text \<open>
  C4. On every sequence with one more boundary time than phases, \<open>addPhase(p, d)\<close> returns
  and raises \<open>getNumPhases()\<close> by exactly 1; the new last phase starts at the previous last
  boundary time, ends at the sum of that time and \<open>d\<close> as \<open>Time\<close> computes it, and its
  handle is \<open>p\<close>. This holds for every \<open>Time\<close> and every duration, the non-negative ones
  included.
\<close>

theorem addPhase_appends:
  fixes s :: "('p, 't::plus) PhaseSequence"
  assumes "length (time_schedule s) = length (phase_schedule s) + 1"
    and "length (time_schedule s) + 1 < 2 ^ 64"
  shows "\<exists>s'. addPhase p d s = Returns s'
          \<and> length (time_schedule s') = length (phase_schedule s') + 1
          \<and> getNumPhases s' = getNumPhases s + 1
          \<and> unat (getNumPhases s') = unat (getNumPhases s) + 1
          \<and> getStartTimeFromIdx s' (getNumPhases s' - 1) = Returns (last (time_schedule s))
          \<and> getEndTimeFromIdx s' (getNumPhases s' - 1) = Returns (last (time_schedule s) + d)
          \<and> getPhasePtrFromIdx s' (getNumPhases s' - 1) = Returns p"
proof -
  let ?ps = "phase_schedule s" and ?ts = "time_schedule s"
  let ?s' = "\<lparr>phase_schedule = ?ps @ [p], time_schedule = ?ts @ [last ?ts + d]\<rparr>"
  note len = assms(1)
  from len have ne: "?ts \<noteq> []" by auto
  have ret: "addPhase p d s = Returns ?s'" using ne by (rule addPhase_Returns)
  from len have len': "length (time_schedule ?s') = length (phase_schedule ?s') + 1" by simp
  have n1: "getNumPhases ?s' = getNumPhases s + 1"
    by (simp add: getNumPhases_def size_vec_def)
  from len assms(2) have small: "length ?ps < 2 ^ 64" "length ?ps + 1 < 2 ^ 64" by simp_all
  have u: "unat (getNumPhases s) = length ?ps"
    using small(1) by (rule unat_getNumPhases)
  have u': "unat (getNumPhases ?s') = length ?ps + 1"
    using small(2) by (simp add: unat_getNumPhases)
  with u have n2: "unat (getNumPhases ?s') = unat (getNumPhases s) + 1" by simp
  have last: "getNumPhases ?s' - 1 = getNumPhases s" by (simp add: n1)
  have u1: "unat (getNumPhases s + 1) = length ?ps + 1"
    using n1 [symmetric] u' by simp
  have st: "getStartTimeFromIdx ?s' (getNumPhases ?s' - 1) = Returns (last ?ts)"
    unfolding last using ne len
    by (simp add: getStartTimeFromIdx_def subscript_def u nth_append last_conv_nth)
  have en: "getEndTimeFromIdx ?s' (getNumPhases ?s' - 1) = Returns (last ?ts + d)"
    unfolding last using len
    by (simp add: getEndTimeFromIdx_def subscript_def u1 nth_append)
  have ph: "getPhasePtrFromIdx ?s' (getNumPhases ?s' - 1) = Returns p"
    unfolding last by (simp add: getPhasePtrFromIdx_def subscript_def u)
  from ret len' n1 n2 st en ph show ?thesis by (intro exI [of _ ?s'] conjI)
qed

theorem addPhase_appends_witness:
  "length (time_schedule small_times) = length (phase_schedule small_times) + 1
   \<and> length (time_schedule small_times) + 1 < 2 ^ 64
   \<and> (\<exists>s'. addPhase ''B'' 3 small_times = Returns s'
          \<and> length (time_schedule s') = length (phase_schedule s') + 1
          \<and> getNumPhases s' = getNumPhases small_times + 1
          \<and> unat (getNumPhases s') = unat (getNumPhases small_times) + 1
          \<and> getStartTimeFromIdx s' (getNumPhases s' - 1) = Returns (last (time_schedule small_times))
          \<and> getEndTimeFromIdx s' (getNumPhases s' - 1)
              = Returns (last (time_schedule small_times) + 3)
          \<and> getPhasePtrFromIdx s' (getNumPhases s' - 1) = Returns ''B'')"
proof -
  have h1: "length (time_schedule small_times) = length (phase_schedule small_times) + 1"
    by simp
  have h2: "length (time_schedule small_times) + 1 < 2 ^ 64" by simp
  from h1 h2 addPhase_appends [OF h1 h2, of "''B''" 3]
  show ?thesis by (intro conjI)
qed

text \<open>
  C7. The claim asks that \<open>addPhase\<close> rejects a negative duration and leaves the sequence
  unchanged. \<open>addPhase\<close> has no test on the duration: appending duration \<open>-1\<close> to the
  sequence with boundaries 0, 2 returns the sequence with boundaries 0, 2, 1.
\<close>

theorem addPhase_negative_duration_is_appended:
  "(- 1 :: int) < 0
   \<and> addPhase ''B'' (- 1) one_phase
       = Returns \<lparr>phase_schedule = [''A'', ''B''], time_schedule = [0, 2, 1]\<rparr>
   \<and> addPhase ''B'' (- 1) one_phase
       \<noteq> Returns one_phase
   \<and> \<not> sorted [0, 2, 1 :: int]"
  by (simp add: addPhase_def back_vec_def)

text \<open>
  C7, as the code has it. \<open>addPhase(p, d)\<close> with \<open>d < 0\<close> on a sequence that satisfies the
  invariant is not rejected: it returns a sequence with \<open>p\<close> and the boundary time
  \<open>back() + d\<close> appended, which still has one more boundary time than phases. Its boundary
  times are non-decreasing exactly when the sum \<open>back() + d\<close> did not come out smaller than
  \<open>back()\<close>.
\<close>

theorem addPhase_negative_duration:
  fixes s :: "('p, 't::{plus,zero,linorder}) PhaseSequence"
  assumes "invariant s" and "d < 0"
  shows "\<exists>s'. addPhase p d s = Returns s'
          \<and> s' \<noteq> s
          \<and> phase_schedule s' = phase_schedule s @ [p]
          \<and> time_schedule s' = time_schedule s @ [last (time_schedule s) + d]
          \<and> length (time_schedule s') = length (phase_schedule s') + 1
          \<and> (sorted (time_schedule s')
               = (last (time_schedule s) \<le> last (time_schedule s) + d))"
proof -
  let ?ps = "phase_schedule s" and ?ts = "time_schedule s"
  let ?s' = "\<lparr>phase_schedule = ?ps @ [p], time_schedule = ?ts @ [last ?ts + d]\<rparr>"
  from assms(1) have ne: "?ts \<noteq> []" by (rule invariant_nonempty)
  from assms(1) have len: "length ?ts = length ?ps + 1" by (rule invariant_length)
  from assms(1) have sorted: "sorted ?ts" by (simp add: invariant_def)
  have ret: "addPhase p d s = Returns ?s'" using ne by (rule addPhase_Returns)
  have neq: "?s' \<noteq> s"
  proof
    assume "?s' = s"
    then have "phase_schedule ?s' = ?ps" by simp
    then show False by simp
  qed
  have order: "sorted (?ts @ [last ?ts + d]) = (last ?ts \<le> last ?ts + d)"
  proof
    assume "sorted (?ts @ [last ?ts + d])"
    then have "\<forall>x\<in>set ?ts. x \<le> last ?ts + d" by (simp add: sorted_append)
    moreover from ne have "last ?ts \<in> set ?ts" by simp
    ultimately show "last ?ts \<le> last ?ts + d" by (rule bspec)
  next
    assume le: "last ?ts \<le> last ?ts + d"
    have "\<forall>x\<in>set ?ts. x \<le> last ?ts + d"
    proof
      fix x assume "x \<in> set ?ts"
      then obtain i where i: "i < length ?ts" "x = ?ts ! i"
        by (auto simp: in_set_conv_nth)
      with sorted ne have "x \<le> last ?ts"
        by (simp add: last_conv_nth sorted_nth_mono)
      then show "x \<le> last ?ts + d" using le by (rule order_trans)
    qed
    with sorted show "sorted (?ts @ [last ?ts + d])" by (simp add: sorted_append)
  qed
  from ret neq len order show ?thesis by (intro exI [of _ ?s']) simp
qed

theorem addPhase_negative_duration_witness:
  "invariant one_phase
   \<and> (- 1 :: int) < 0
   \<and> (\<exists>s'. addPhase ''B'' (- 1) one_phase = Returns s'
          \<and> s' \<noteq> one_phase
          \<and> phase_schedule s' = phase_schedule one_phase @ [''B'']
          \<and> time_schedule s' = time_schedule one_phase @ [last (time_schedule one_phase) + (- 1)]
          \<and> length (time_schedule s') = length (phase_schedule s') + 1
          \<and> (sorted (time_schedule s')
               = (last (time_schedule one_phase) \<le> last (time_schedule one_phase) + (- 1))))"
proof -
  have h1: "invariant one_phase" by (simp add: invariant_def)
  have h2: "(- 1 :: int) < 0" by simp
  from h1 h2 addPhase_negative_duration [OF h1 h2, of "''B''"]
  show ?thesis by (intro conjI)
qed

subsection \<open>Indices outside the valid range\<close>

text \<open>
  C8. The claim asks that an index outside the valid range fails with an explicit error.
  None of the four functions tests its index. On a freshly constructed sequence with start
  time 7 there are no phases, yet \<open>getStartTimeFromIdx(0)\<close> returns 7, and
  \<open>getEndTimeFromIdx\<close> at the largest index wraps to position 0 and returns 7 too.
\<close>

theorem unchecked_index_returns_value:
  "getNumPhases (new_PhaseSequence 7 :: (string, int) PhaseSequence) = 0
   \<and> \<not> (0 :: size_t) < getNumPhases (new_PhaseSequence 7 :: (string, int) PhaseSequence)
   \<and> getStartTimeFromIdx (new_PhaseSequence 7 :: (string, int) PhaseSequence) 0 = Returns 7
   \<and> getEndTimeFromIdx (new_PhaseSequence 7 :: (string, int) PhaseSequence) 18446744073709551615
         = Returns 7"
  by (simp add: getNumPhases_def size_vec_def new_PhaseSequence_def getStartTimeFromIdx_def
      getEndTimeFromIdx_def subscript_def)

lemma unat_plus_one:
  fixes idx :: size_t
  assumes "idx \<noteq> - 1"
  shows "unat (idx + 1) = unat idx + 1"
proof -
  from assms have "1 + idx \<noteq> 0"
    by (metis add_diff_cancel_left' diff_0)
  then have "unat (1 + idx) = Suc (unat idx)" by (rule unatSuc)
  then show ?thesis by (simp add: add.commute)
qed

text \<open>
  C8, as the code has it. On a sequence that satisfies the invariant, for an index that is
  not below \<open>getNumPhases()\<close>: \<open>getStartTimeFromIdx\<close> returns the last boundary time when
  the index equals \<open>getNumPhases()\<close> and is an out-of-bounds read otherwise;
  \<open>getEndTimeFromIdx\<close> returns the start time when the index is the largest
  \<open>std::size_t\<close> and is an out-of-bounds read otherwise; \<open>getPhasePtrFromIdx\<close> is an
  out-of-bounds read. \<open>getSwitchEventFromIdx\<close> at an index not below \<open>getNumSwitches()\<close> is
  an out-of-bounds read. No call yields an error value.
\<close>

theorem unchecked_index:
  fixes s :: "('p, 't::linorder) PhaseSequence"
  assumes "invariant s" and "length (time_schedule s) < 2 ^ 64"
    and "\<not> idx < getNumPhases s" and "\<not> jdx < getNumSwitches s"
  shows "getStartTimeFromIdx s idx =
           (if idx = getNumPhases s then Returns (last (time_schedule s)) else Undefined_behaviour)
       \<and> getEndTimeFromIdx s idx =
           (if idx = - 1 then Returns (hd (time_schedule s)) else Undefined_behaviour)
       \<and> getPhasePtrFromIdx s idx = Undefined_behaviour
       \<and> getSwitchEventFromIdx s jdx = Undefined_behaviour"
proof -
  let ?ps = "phase_schedule s" and ?ts = "time_schedule s"
  from assms(1) have ne: "?ts \<noteq> []" by (rule invariant_nonempty)
  from assms(1) have len: "length ?ts = length ?ps + 1" by (simp add: invariant_def)
  with assms(2) have small: "length ?ps < 2 ^ 64" by simp
  then have u: "unat (getNumPhases s) = length ?ps" by (rule unat_getNumPhases)
  from assms(3) u have ge: "length ?ps \<le> unat idx" by (simp add: word_less_nat_alt)
  have eq: "idx = getNumPhases s \<longleftrightarrow> unat idx = length ?ps"
    by (simp add: word_unat_eq_iff u)
  have st: "getStartTimeFromIdx s idx =
           (if idx = getNumPhases s then Returns (last ?ts) else Undefined_behaviour)"
  proof (cases "unat idx = length ?ps")
    case True
    with ne len eq show ?thesis
      by (simp add: getStartTimeFromIdx_def subscript_def last_conv_nth)
  next
    case False
    with ge have "\<not> unat idx < length ?ts" using len by simp
    with False eq show ?thesis by (simp add: getStartTimeFromIdx_def subscript_def)
  qed
  have en: "getEndTimeFromIdx s idx =
           (if idx = - 1 then Returns (hd ?ts) else Undefined_behaviour)"
  proof (cases "idx = - 1")
    case True
    with ne show ?thesis by (simp add: getEndTimeFromIdx_def subscript_def hd_conv_nth)
  next
    case False
    then have "unat (idx + 1) = unat idx + 1" by (rule unat_plus_one)
    with ge len have "\<not> unat (idx + 1) < length ?ts" by simp
    with False show ?thesis by (simp add: getEndTimeFromIdx_def subscript_def)
  qed
  from ge have ph: "getPhasePtrFromIdx s idx = Undefined_behaviour"
    by (simp add: getPhasePtrFromIdx_def subscript_def)
  have sw: "getSwitchEventFromIdx s jdx = Undefined_behaviour"
  proof (cases "unat jdx < length ?ps")
    case False
    then show ?thesis by (simp add: getSwitchEventFromIdx_def getPhasePtr_def subscript_def)
  next
    case True
    then have nonempty: "?ps \<noteq> []" by auto
    from assms(4) unat_getNumSwitches [OF nonempty small]
    have "length ?ps - 1 \<le> unat jdx" by (simp add: word_less_nat_alt)
    with True have j: "unat jdx + 1 = length ?ps" by simp
    with small have "unat jdx + 1 < 2 ^ 64" by simp
    then have "unat (jdx + 1) = unat jdx + 1" by (simp add: unat_word_ariths)
    with j have "\<not> unat (jdx + 1) < length ?ps" by simp
    with True show ?thesis
      by (simp add: getSwitchEventFromIdx_def getPhasePtr_def subscript_def)
  qed
  from st en ph sw show ?thesis by (intro conjI)
qed

theorem unchecked_index_witness:
  "invariant one_phase
   \<and> length (time_schedule one_phase) < 2 ^ 64
   \<and> \<not> (1 :: size_t) < getNumPhases one_phase
   \<and> \<not> (0 :: size_t) < getNumSwitches one_phase
   \<and> getStartTimeFromIdx one_phase 1 =
           (if (1 :: size_t) = getNumPhases one_phase then Returns (last (time_schedule one_phase))
            else Undefined_behaviour)
   \<and> getEndTimeFromIdx one_phase 1 =
           (if (1 :: size_t) = - 1 then Returns (hd (time_schedule one_phase)) else Undefined_behaviour)
   \<and> getPhasePtrFromIdx one_phase 1 = Undefined_behaviour
   \<and> getSwitchEventFromIdx one_phase 0 = Undefined_behaviour"
proof -
  have h1: "invariant one_phase" by (simp add: invariant_def)
  have h2: "length (time_schedule one_phase) < 2 ^ 64" by simp
  have h3: "\<not> (1 :: size_t) < getNumPhases one_phase"
    by (simp add: getNumPhases_def size_vec_def)
  have h4: "\<not> (0 :: size_t) < getNumSwitches one_phase"
    by (simp add: getNumSwitches_def getNumPhases_def size_vec_def)
  from h1 h2 h3 h4 unchecked_index [OF h1 h2 h3 h4]
  show ?thesis by (intro conjI) (elim conjE, assumption)+
qed

subsection \<open>What a call changes\<close>

lemma bind_outcome_eq_Returns:
  "bind_outcome m f = Returns b \<longleftrightarrow> (\<exists>a. m = Returns a \<and> f a = Returns b)"
  by (cases m) simp_all

lemma invoke_query:
  assumes "is_query c" and "invoke c s = Returns (a, s')"
  shows "s' = s"
  using assms by (cases c) (auto simp: bind_outcome_eq_Returns)

lemma addPhase_extends:
  assumes "addPhase p d s = Returns s'"
  shows "take (length (phase_schedule s)) (phase_schedule s') = phase_schedule s
       \<and> take (length (time_schedule s)) (time_schedule s') = time_schedule s
       \<and> length (phase_schedule s) \<le> length (phase_schedule s')
       \<and> length (time_schedule s) \<le> length (time_schedule s')"
  using assms by (auto simp: addPhase_def bind_outcome_eq_Returns)

lemma invoke_extends:
  assumes "invoke c s = Returns (a, s')"
  shows "take (length (phase_schedule s)) (phase_schedule s') = phase_schedule s
       \<and> take (length (time_schedule s)) (time_schedule s') = time_schedule s
       \<and> length (phase_schedule s) \<le> length (phase_schedule s')
       \<and> length (time_schedule s) \<le> length (time_schedule s')"
proof (cases "is_query c")
  case True
  then have "s' = s" using assms by (rule invoke_query)
  then show ?thesis by simp
next
  case False
  then obtain p d where c: "c = AddPhase p d" by (cases c) simp_all
  with assms have "addPhase p d s = Returns s'"
    by (auto simp: bind_outcome_eq_Returns)
  then show ?thesis by (rule addPhase_extends)
qed

lemma take_take_le:
  assumes "take n ys = xs" and "take m zs = ys" and "n \<le> m"
  shows "take n zs = xs"
proof -
  from assms(2) have "take n ys = take n (take m zs)" by simp
  also from assms(3) have "\<dots> = take n zs" by (simp add: min_def)
  finally show ?thesis using assms(1) by simp
qed

lemma invoke_all_extends:
  assumes "invoke_all cs s = Returns s'"
  shows "take (length (phase_schedule s)) (phase_schedule s') = phase_schedule s
       \<and> take (length (time_schedule s)) (time_schedule s') = time_schedule s
       \<and> length (phase_schedule s) \<le> length (phase_schedule s')
       \<and> length (time_schedule s) \<le> length (time_schedule s')"
  using assms
proof (induction cs arbitrary: s)
  case Nil
  then show ?case by simp
next
  case (Cons c cs)
  from Cons.prems obtain a s1 where step: "invoke c s = Returns (a, s1)"
    and rest: "invoke_all cs s1 = Returns s'"
    by (auto simp: bind_outcome_eq_Returns)
  note e1 = invoke_extends [OF step]
  note e2 = Cons.IH [OF rest]
  from e1 have p1: "take (length (phase_schedule s)) (phase_schedule s1) = phase_schedule s"
    and t1: "take (length (time_schedule s)) (time_schedule s1) = time_schedule s"
    and lp1: "length (phase_schedule s) \<le> length (phase_schedule s1)"
    and lt1: "length (time_schedule s) \<le> length (time_schedule s1)" by simp_all
  from e2 have p2: "take (length (phase_schedule s1)) (phase_schedule s') = phase_schedule s1"
    and t2: "take (length (time_schedule s1)) (time_schedule s') = time_schedule s1"
    and lp2: "length (phase_schedule s1) \<le> length (phase_schedule s')"
    and lt2: "length (time_schedule s1) \<le> length (time_schedule s')" by simp_all
  have "take (length (phase_schedule s)) (phase_schedule s') = phase_schedule s"
    using p1 p2 lp1 by (rule take_take_le)
  moreover
  have "take (length (time_schedule s)) (time_schedule s') = time_schedule s"
    using t1 t2 lt1 by (rule take_take_le)
  moreover
  from lp1 lp2 have "length (phase_schedule s) \<le> length (phase_schedule s')" by simp
  moreover
  from lt1 lt2 have "length (time_schedule s) \<le> length (time_schedule s')" by simp
  ultimately show ?case by (intro conjI)
qed

lemma invoke_all_queries:
  assumes "list_all is_query cs" and "invoke_all cs s = Returns s'"
  shows "s' = s"
  using assms
proof (induction cs arbitrary: s)
  case Nil
  then show ?case by simp
next
  case (Cons c cs)
  from Cons.prems(2) obtain a s1 where step: "invoke c s = Returns (a, s1)"
    and rest: "invoke_all cs s1 = Returns s'"
    by (auto simp: bind_outcome_eq_Returns)
  from Cons.prems(1) have "is_query c" and qs: "list_all is_query cs" by simp_all
  with step have "s1 = s" by (simp add: invoke_query)
  with Cons.IH [OF qs rest] show ?case by simp
qed

text \<open>
  C9. A query that returns leaves the sequence as it was, and so does a run of queries.
  After any run of calls that returns, the earlier \<open>phase_schedule\<close> and \<open>time_schedule\<close>
  are initial parts of the later ones: every entry written before is unchanged, and
  \<open>time_schedule[0]\<close> is still the start time given to the constructor.
\<close>

theorem queries_leave_state_appends_keep_entries:
  fixes s :: "('p, 't::{plus,linorder}) PhaseSequence"
  assumes "is_query q" and "list_all is_query qs" and "time_schedule s \<noteq> []"
  shows "(invoke q s = Undefined_behaviour \<or> (\<exists>a. invoke q s = Returns (a, s)))
       \<and> (invoke_all qs s = Undefined_behaviour \<or> invoke_all qs s = Returns s)
       \<and> (invoke_all cs s = Undefined_behaviour \<or>
            (\<exists>s'. invoke_all cs s = Returns s'
               \<and> take (length (phase_schedule s)) (phase_schedule s') = phase_schedule s
               \<and> take (length (time_schedule s)) (time_schedule s') = time_schedule s
               \<and> time_schedule s' ! 0 = time_schedule s ! 0))
       \<and> (invoke_all cs (new_PhaseSequence t0) = Undefined_behaviour \<or>
            (\<exists>s'. invoke_all cs (new_PhaseSequence t0) = Returns s'
               \<and> time_schedule s' ! 0 = t0))"
proof (intro conjI)
  show "invoke q s = Undefined_behaviour \<or> (\<exists>a. invoke q s = Returns (a, s))"
  proof (cases "invoke q s")
    case (Returns r)
    obtain a s1 where r: "r = (a, s1)" by (cases r)
    with Returns have ret: "invoke q s = Returns (a, s1)" by simp
    with assms(1) have "s1 = s" by (rule invoke_query)
    with ret have "\<exists>a. invoke q s = Returns (a, s)" by (intro exI [of _ a]) simp
    then show ?thesis by (rule disjI2)
  next
    case Undefined_behaviour
    then show ?thesis by simp
  qed
next
  show "invoke_all qs s = Undefined_behaviour \<or> invoke_all qs s = Returns s"
  proof (cases "invoke_all qs s")
    case (Returns s')
    with assms(2) have "s' = s" by (rule invoke_all_queries)
    with Returns show ?thesis by simp
  next
    case Undefined_behaviour
    then show ?thesis by simp
  qed
next
  have first: "time_schedule s' ! 0 = time_schedule s0 ! 0"
    if "take (length (time_schedule s0)) (time_schedule s') = time_schedule s0"
      and "time_schedule s0 \<noteq> []" for s' s0 :: "('p, 't) PhaseSequence"
  proof -
    from that(2) have "0 < length (time_schedule s0)" by simp
    then have "take (length (time_schedule s0)) (time_schedule s') ! 0 = time_schedule s' ! 0"
      by (rule nth_take)
    with that(1) show ?thesis by simp
  qed
  show "invoke_all cs s = Undefined_behaviour \<or>
            (\<exists>s'. invoke_all cs s = Returns s'
               \<and> take (length (phase_schedule s)) (phase_schedule s') = phase_schedule s
               \<and> take (length (time_schedule s)) (time_schedule s') = time_schedule s
               \<and> time_schedule s' ! 0 = time_schedule s ! 0)"
  proof (cases "invoke_all cs s")
    case (Returns s')
    note e = invoke_all_extends [OF Returns]
    from e have t: "take (length (time_schedule s)) (time_schedule s') = time_schedule s"
      by simp
    from t assms(3) have "time_schedule s' ! 0 = time_schedule s ! 0" by (rule first)
    with Returns e show ?thesis by simp
  next
    case Undefined_behaviour
    then show ?thesis by simp
  qed
  show "invoke_all cs (new_PhaseSequence t0) = Undefined_behaviour \<or>
            (\<exists>s'. invoke_all cs (new_PhaseSequence t0) = Returns s'
               \<and> time_schedule s' ! 0 = t0)"
  proof (cases "invoke_all cs (new_PhaseSequence t0 :: ('p, 't) PhaseSequence)")
    case (Returns s')
    note e = invoke_all_extends [OF Returns]
    from e have t: "take (length (time_schedule (new_PhaseSequence t0 :: ('p, 't) PhaseSequence)))
        (time_schedule s') = time_schedule (new_PhaseSequence t0 :: ('p, 't) PhaseSequence)"
      by simp
    have "time_schedule (new_PhaseSequence t0 :: ('p, 't) PhaseSequence) \<noteq> []"
      by (simp add: new_PhaseSequence_def)
    with t have "time_schedule s' ! 0 = time_schedule (new_PhaseSequence t0 :: ('p, 't) PhaseSequence) ! 0"
      by (rule first)
    then have "time_schedule s' ! 0 = t0" by (simp add: new_PhaseSequence_def)
    with Returns show ?thesis by simp
  next
    case Undefined_behaviour
    then show ?thesis by simp
  qed
qed

theorem queries_leave_state_appends_keep_entries_witness:
  "is_query (GetStartTimeFromIdx 0 :: (string, int) call)
   \<and> list_all is_query [GetNumPhases, GetIdxFromTime 1 :: (string, int) call]
   \<and> time_schedule one_phase \<noteq> []
   \<and> invoke (GetStartTimeFromIdx 0) one_phase = Returns (Time 0, one_phase)
   \<and> invoke_all [GetNumPhases, GetIdxFromTime 1] one_phase = Returns one_phase
   \<and> invoke_all [GetNumSwitches, AddPhase ''B'' 3, GetPhasePtrFromTime 0] one_phase
        = Returns \<lparr>phase_schedule = [''A'', ''B''], time_schedule = [0, 2, 5]\<rparr>
   \<and> (invoke (GetStartTimeFromIdx 0) one_phase = Undefined_behaviour
        \<or> (\<exists>a. invoke (GetStartTimeFromIdx 0) one_phase = Returns (a, one_phase)))
   \<and> (invoke_all [GetNumPhases, GetIdxFromTime 1] one_phase = Undefined_behaviour
        \<or> invoke_all [GetNumPhases, GetIdxFromTime 1] one_phase = Returns one_phase)
   \<and> (invoke_all [GetNumSwitches, AddPhase ''B'' 3, GetPhasePtrFromTime 0] one_phase
          = Undefined_behaviour \<or>
        (\<exists>s'. invoke_all [GetNumSwitches, AddPhase ''B'' 3, GetPhasePtrFromTime 0] one_phase
                 = Returns s'
           \<and> take (length (phase_schedule one_phase)) (phase_schedule s') = phase_schedule one_phase
           \<and> take (length (time_schedule one_phase)) (time_schedule s') = time_schedule one_phase
           \<and> time_schedule s' ! 0 = time_schedule one_phase ! 0))
   \<and> (invoke_all [GetNumSwitches, AddPhase ''B'' 3, GetPhasePtrFromTime 0] empty_sequence
          = Undefined_behaviour \<or>
        (\<exists>s'. invoke_all [GetNumSwitches, AddPhase ''B'' 3, GetPhasePtrFromTime 0] empty_sequence
                 = Returns s'
           \<and> time_schedule s' ! 0 = 0))"
proof -
  have h1: "is_query (GetStartTimeFromIdx 0 :: (string, int) call)" by simp
  have h2: "list_all is_query [GetNumPhases, GetIdxFromTime 1 :: (string, int) call]" by simp
  have h3: "time_schedule one_phase \<noteq> []" by simp
  have e1: "invoke (GetStartTimeFromIdx 0) one_phase = Returns (Time 0, one_phase)"
    by (simp add: getStartTimeFromIdx_def subscript_def)
  have e2: "invoke_all [GetNumPhases, GetIdxFromTime 1] one_phase = Returns one_phase"
    by simp
  have e3: "invoke_all [GetNumSwitches, AddPhase ''B'' 3, GetPhasePtrFromTime 0] one_phase
        = Returns \<lparr>phase_schedule = [''A'', ''B''], time_schedule = [0, 2, 5]\<rparr>"
    by (simp add: addPhase_def back_vec_def getPhasePtrFromTime_def getPhasePtrFromIdx_def
        subscript_def getIdxFromTime_def lower_bound_def lower_bound_loop.simps)
  from h1 h2 h3 e1 e2 e3
    queries_leave_state_appends_keep_entries [OF h1 h2 h3,
      of "[GetNumSwitches, AddPhase ''B'' 3, GetPhasePtrFromTime 0]" 0]
  show ?thesis by (intro conjI) (elim conjE, assumption)+
qed

end
